theory Spec2Isabelle
  imports Complex_Main "HOL-Library.Word"
begin

section \<open>The registry store (TorReputationStore.sol)\<close>

text \<open>
  Solidity values: an \<open>address\<close> is a 160-bit word, a \<open>uint256\<close> a 256-bit word, a
  \<open>string\<close> a sequence of bytes (\<open>bytes(s).length\<close> is \<open>length s\<close>). A mapping is a
  total function whose unwritten keys hold the zero value of the value type. The length of
  the storage array \<open>fingerprintList\<close> is read as a natural number: an array of
  \<open>2 ^ 256\<close> entries cannot be built, so the length never wraps.
\<close>

type_synonym address = "160 word"
type_synonym uint256 = "256 word"

text \<open>The struct \<open>RelayData\<close>. The scripts declare the same ten fields in TypeScript with
  \<open>number\<close> where the contract has \<open>uint256\<close>, so the record takes the number type as
  a parameter: \<open>uint256 RelayData\<close> is the contract's struct.\<close>

record 'n RelayData =
  fingerprint :: string
  nickname :: string
  flags :: "string list"
  uptime :: 'n
  bandwidth :: 'n
  consensusWeight :: 'n
  country :: string
  asNumber :: string
  lastSeen :: 'n
  running :: bool

definition zeroRelayData :: "uint256 RelayData" where
  "zeroRelayData = \<lparr>fingerprint = [], nickname = [], flags = [], uptime = 0, bandwidth = 0,
     consensusWeight = 0, country = [], asNumber = [], lastSeen = 0, running = False\<rparr>"

record Store =
  owner :: address
  authorizedUpdaters :: "address \<Rightarrow> bool"
  relaysByFingerprint :: "string \<Rightarrow> uint256 RelayData"
  fingerprintList :: "string list"

text \<open>The constants of the contract. The transformer declares \<open>FINGERPRINT_LENGTH\<close> and
  \<open>MAX_UPTIME\<close> again with the same values, the latter as a \<open>number\<close>, so
  \<open>MAX_UPTIME\<close> is a numeral of either type.\<close>

definition FINGERPRINT_LENGTH :: nat where "FINGERPRINT_LENGTH = 40"
definition MAX_UPTIME :: "'a::numeral" where "MAX_UPTIME = 1000"
definition COUNTRY_CODE_LENGTH :: nat where "COUNTRY_CODE_LENGTH = 2"

text \<open>Every \<open>require\<close> message of the contract, and the checked-arithmetic panic of
  Solidity 0.8 (\<open>Panic(0x11)\<close>).\<close>

datatype revert =
    OnlyOwner
  | OnlyAuthorized
  | NewOwnerZero
  | UpdaterZero
  | AlreadyAuthorized
  | NotAuthorized
  | InvalidFingerprintLength
  | UptimeExceedsMaximum
  | InvalidCountryCode
  | LastSeenInFuture
  | NicknameEmpty
  | RelayNotFound
  | IndexOutOfBounds
  | OffsetOutOfBounds
  | PanicOverflow

text \<open>The constructor; \<open>sender\<close> is \<open>msg.sender\<close> of the deployment.\<close>

definition constructor :: "address \<Rightarrow> Store" where
  "constructor sender = \<lparr>owner = sender, authorizedUpdaters = (\<lambda>_. False),
     relaysByFingerprint = (\<lambda>_. zeroRelayData), fingerprintList = []\<rparr>"

text \<open>The two modifiers, as the conditions their \<open>require\<close> tests.\<close>

definition onlyOwner :: "address \<Rightarrow> Store \<Rightarrow> bool" where
  "onlyOwner sender s \<longleftrightarrow> sender = owner s"

definition onlyAuthorized :: "address \<Rightarrow> Store \<Rightarrow> bool" where
  "onlyAuthorized sender s \<longleftrightarrow> sender = owner s \<or> authorizedUpdaters s sender"

definition transferOwnership :: "address \<Rightarrow> address \<Rightarrow> Store \<Rightarrow> revert + Store" where
  "transferOwnership sender newOwner s =
     (if \<not> onlyOwner sender s then Inl OnlyOwner
      else if newOwner = 0 then Inl NewOwnerZero
      else Inr (s\<lparr>owner := newOwner\<rparr>))"

definition addAuthorizedUpdater :: "address \<Rightarrow> address \<Rightarrow> Store \<Rightarrow> revert + Store" where
  "addAuthorizedUpdater sender updater s =
     (if \<not> onlyOwner sender s then Inl OnlyOwner
      else if updater = 0 then Inl UpdaterZero
      else if authorizedUpdaters s updater then Inl AlreadyAuthorized
      else Inr (s\<lparr>authorizedUpdaters := (authorizedUpdaters s)(updater := True)\<rparr>))"

definition removeAuthorizedUpdater :: "address \<Rightarrow> address \<Rightarrow> Store \<Rightarrow> revert + Store" where
  "removeAuthorizedUpdater sender updater s =
     (if \<not> onlyOwner sender s then Inl OnlyOwner
      else if \<not> authorizedUpdaters s updater then Inl NotAuthorized
      else Inr (s\<lparr>authorizedUpdaters := (authorizedUpdaters s)(updater := False)\<rparr>))"

text \<open>\<open>updateRelay\<close>: \<open>sender\<close> is \<open>msg.sender\<close>, \<open>now\<close> is \<open>block.timestamp\<close>; the ten
  calldata arguments follow in the order of the source.\<close>

definition updateRelay ::
  "address \<Rightarrow> uint256 \<Rightarrow> string \<Rightarrow> string \<Rightarrow> string list \<Rightarrow> uint256 \<Rightarrow> uint256 \<Rightarrow> uint256
     \<Rightarrow> string \<Rightarrow> string \<Rightarrow> uint256 \<Rightarrow> bool \<Rightarrow> Store \<Rightarrow> revert + Store" where
  "updateRelay sender now fp nick fl up bw cw ctry asn seen run s =
     (if \<not> onlyAuthorized sender s then Inl OnlyAuthorized
      else if length fp \<noteq> FINGERPRINT_LENGTH then Inl InvalidFingerprintLength
      else if \<not> up \<le> MAX_UPTIME then Inl UptimeExceedsMaximum
      else if length ctry \<noteq> COUNTRY_CODE_LENGTH then Inl InvalidCountryCode
      else if \<not> seen \<le> now then Inl LastSeenInFuture
      else if \<not> length nick > 0 then Inl NicknameEmpty
      else Inr (s\<lparr>fingerprintList :=
                     (if length (fingerprint (relaysByFingerprint s fp)) = 0
                      then fingerprintList s @ [fp] else fingerprintList s),
                  relaysByFingerprint := (relaysByFingerprint s)(fp :=
                     \<lparr>fingerprint = fp, nickname = nick, flags = fl, uptime = up,
                      bandwidth = bw, consensusWeight = cw, country = ctry, asNumber = asn,
                      lastSeen = seen, running = run\<rparr>)\<rparr>))"

text \<open>The loop of \<open>batchUpdateRelays\<close>, one element per step; a failed \<open>require\<close> ends
  the call with that error.\<close>

fun batchLoop :: "uint256 \<Rightarrow> uint256 RelayData list \<Rightarrow> Store \<Rightarrow> revert + Store" where
  "batchLoop now [] s = Inr s"
| "batchLoop now (relay # rest) s =
     (if length (fingerprint relay) \<noteq> FINGERPRINT_LENGTH then Inl InvalidFingerprintLength
      else if \<not> uptime relay \<le> MAX_UPTIME then Inl UptimeExceedsMaximum
      else if length (country relay) \<noteq> COUNTRY_CODE_LENGTH then Inl InvalidCountryCode
      else if \<not> lastSeen relay \<le> now then Inl LastSeenInFuture
      else if \<not> length (nickname relay) > 0 then Inl NicknameEmpty
      else batchLoop now rest
             (s\<lparr>fingerprintList :=
                   (if length (fingerprint (relaysByFingerprint s (fingerprint relay))) = 0
                    then fingerprintList s @ [fingerprint relay] else fingerprintList s),
                relaysByFingerprint := (relaysByFingerprint s)(fingerprint relay := relay)\<rparr>))"

definition batchUpdateRelays :: "address \<Rightarrow> uint256 \<Rightarrow> uint256 RelayData list \<Rightarrow> Store \<Rightarrow> revert + Store" where
  "batchUpdateRelays sender now relays s =
     (if \<not> onlyAuthorized sender s then Inl OnlyAuthorized else batchLoop now relays s)"

definition getRelay :: "Store \<Rightarrow> string \<Rightarrow> revert + uint256 RelayData" where
  "getRelay s fp =
     (if \<not> length (fingerprint (relaysByFingerprint s fp)) > 0 then Inl RelayNotFound
      else Inr (relaysByFingerprint s fp))"

definition getRelayCount :: "Store \<Rightarrow> nat" where
  "getRelayCount s = length (fingerprintList s)"

definition getFingerprintByIndex :: "Store \<Rightarrow> uint256 \<Rightarrow> revert + string" where
  "getFingerprintByIndex s index =
     (if \<not> unat index < length (fingerprintList s) then Inl IndexOutOfBounds
      else Inr (fingerprintList s ! unat index))"

text \<open>\<open>getRelaysPaginated\<close>: \<open>offset + limit\<close> is checked arithmetic on \<open>uint256\<close>, so a
  sum of \<open>2 ^ 256\<close> or more panics before \<open>end\<close> is clamped. The loop fills
  \<open>result[i]\<close> for \<open>i = 0, ..., resultLength - 1\<close>.\<close>

definition getRelaysPaginated :: "Store \<Rightarrow> uint256 \<Rightarrow> uint256 \<Rightarrow> revert + uint256 RelayData list" where
  "getRelaysPaginated s offset limit =
     (if \<not> unat offset < length (fingerprintList s) then Inl OffsetOutOfBounds
      else if unat offset + unat limit \<ge> 2 ^ 256 then Inl PanicOverflow
      else
        (let end0 = unat offset + unat limit;
             end = (if end0 > length (fingerprintList s) then length (fingerprintList s) else end0);
             resultLength = end - unat offset
         in Inr (map (\<lambda>i. relaysByFingerprint s (fingerprintList s ! (unat offset + i)))
                   [0..<resultLength])))"

definition relayExists :: "Store \<Rightarrow> string \<Rightarrow> bool" where
  "relayExists s fp \<longleftrightarrow> length (fingerprint (relaysByFingerprint s fp)) > 0"

text \<open>A transaction either commits the state its call returns or, on a revert, leaves the
  state as it was: the EVM rolls back every write of a reverted call.\<close>

definition transact :: "(Store \<Rightarrow> revert + Store) \<Rightarrow> Store \<Rightarrow> Store \<times> revert option" where
  "transact f s = (case f s of Inl e \<Rightarrow> (s, Some e) | Inr s' \<Rightarrow> (s', None))"

text \<open>The record validation shared by both writers: the five \<open>require\<close> conditions.\<close>

definition validRecord :: "uint256 \<Rightarrow> uint256 RelayData \<Rightarrow> bool" where
  "validRecord now r \<longleftrightarrow>
     length (fingerprint r) = 40 \<and> uptime r \<le> 1000 \<and> length (country r) = 2 \<and>
     lastSeen r \<le> now \<and> nickname r \<noteq> []"

text \<open>\<open>upsert\<close> is \<open>updateRelay\<close> called with the fields of a record as its arguments.\<close>

definition upsert :: "address \<Rightarrow> uint256 \<Rightarrow> uint256 RelayData \<Rightarrow> Store \<Rightarrow> revert + Store" where
  "upsert sender now r s =
     updateRelay sender now (fingerprint r) (nickname r) (flags r) (uptime r) (bandwidth r)
       (consensusWeight r) (country r) (asNumber r) (lastSeen r) (running r) s"

subsection \<open>Calls and reachable states\<close>

text \<open>The five state-changing functions as one type of calls; the views change nothing.\<close>

datatype call =
    TransferOwnership address
  | AddAuthorizedUpdater address
  | RemoveAuthorizedUpdater address
  | UpdateRelay "uint256 RelayData"
  | BatchUpdateRelays "uint256 RelayData list"

fun exec :: "address \<Rightarrow> uint256 \<Rightarrow> call \<Rightarrow> Store \<Rightarrow> revert + Store" where
  "exec sender now (TransferOwnership newOwner) s = transferOwnership sender newOwner s"
| "exec sender now (AddAuthorizedUpdater updater) s = addAuthorizedUpdater sender updater s"
| "exec sender now (RemoveAuthorizedUpdater updater) s = removeAuthorizedUpdater sender updater s"
| "exec sender now (UpdateRelay r) s = upsert sender now r s"
| "exec sender now (BatchUpdateRelays relays) s = batchUpdateRelays sender now relays s"

definition step :: "address \<Rightarrow> uint256 \<Rightarrow> call \<Rightarrow> Store \<Rightarrow> Store" where
  "step sender now c s = fst (transact (exec sender now c) s)"

text \<open>A sequence of transactions, each with its sender and block timestamp; the result is
  the final state and the outcome of every transaction in order.\<close>

fun execAll :: "(address \<times> uint256 \<times> call) list \<Rightarrow> Store \<Rightarrow> Store \<times> revert option list" where
  "execAll [] s = (s, [])"
| "execAll ((sender, now, c) # cs) s =
     (case transact (exec sender now c) s of
        (s', out) \<Rightarrow> (case execAll cs s' of (s'', outs) \<Rightarrow> (s'', out # outs)))"

inductive reachable :: "Store \<Rightarrow> bool" where
  deployed: "reachable (constructor sender)"
| called: "reachable s \<Longrightarrow> reachable (step sender now c s)"

subsection \<open>Test data\<close>

text \<open>\<open>sampleRelay\<close> of the contract's test suite, with a fixed \<open>lastSeen\<close>, and the
  \<open>"A".repeat(40)\<close>, \<open>"B".repeat(40)\<close> records of its batch tests.\<close>

definition sampleRelay :: "uint256 RelayData" where
  "sampleRelay = \<lparr>fingerprint = ''A1B2C3D4E5F6A1B2C3D4E5F6A1B2C3D4E5F6A1B2'',
     nickname = ''TorRelayTest'', flags = [''Guard'', ''Fast'', ''Stable''], uptime = 950,
     bandwidth = 1000000, consensusWeight = 500, country = ''US'', asNumber = ''AS1234'',
     lastSeen = 1700000000, running = True\<rparr>"

definition relayA :: "uint256 RelayData" where
  "relayA = sampleRelay\<lparr>fingerprint := replicate 40 CHR ''A'', nickname := ''Relay1''\<rparr>"

definition relayB :: "uint256 RelayData" where
  "relayB = sampleRelay\<lparr>fingerprint := replicate 40 CHR ''B'', nickname := ''Relay2''\<rparr>"


definition testOwner :: address where "testOwner = 1"
definition testUpdater :: address where "testUpdater = 2"
definition testTime :: uint256 where "testTime = 1700000100"

definition storeAB :: Store where
  "storeAB = step testOwner testTime (BatchUpdateRelays [relayA, relayB]) (constructor testOwner)"

definition relayBadUptime :: "uint256 RelayData" where
  "relayBadUptime = sampleRelay\<lparr>fingerprint := replicate 40 CHR ''C'', uptime := 1001\<rparr>"

definition testLater :: uint256 where "testLater = 1700000200"

definition storeWithUpdater :: Store where
  "storeWithUpdater =
     step testOwner testTime (AddAuthorizedUpdater testUpdater) (constructor testOwner)"

subsection \<open>Notions used in the properties\<close>

text \<open>The errors of the five validation \<open>require\<close>s.\<close>

definition validationError :: "revert \<Rightarrow> bool" where
  "validationError e \<longleftrightarrow> e \<in> {InvalidFingerprintLength, UptimeExceedsMaximum,
     InvalidCountryCode, LastSeenInFuture, NicknameEmpty}"

text \<open>The index lists every stored fingerprint exactly once.\<close>

definition indexInv :: "Store \<Rightarrow> bool" where
  "indexInv s \<longleftrightarrow> distinct (fingerprintList s) \<and> set (fingerprintList s) = {fp. relayExists s fp}"

text \<open>\<open>s'\<close> keeps every record and every index entry of \<open>s\<close>.\<close>

definition grows :: "Store \<Rightarrow> Store \<Rightarrow> bool" where
  "grows s s' \<longleftrightarrow> (\<forall>fp. relayExists s fp \<longrightarrow> relayExists s' fp) \<and>
     (\<exists>ys. fingerprintList s' = fingerprintList s @ ys)"

section \<open>The transformer (scripts/src/transformers/relayData.ts)\<close>











definition isWhiteSpace :: "char \<Rightarrow> bool" where
  "isWhiteSpace c \<longleftrightarrow> (of_char c :: nat) \<in> {9, 10, 11, 12, 13, 32}"

definition trim :: "string \<Rightarrow> string" where
  "trim s = rev (dropWhile isWhiteSpace (rev (dropWhile isWhiteSpace s)))"


text \<open>\<open>validateRelayData\<close>, the filter \<open>transformRelays\<close> applies to every transformed
  record.\<close>

definition validateRelayData :: "rat RelayData \<Rightarrow> bool" where
  "validateRelayData relay =
     (if fingerprint relay = [] \<or> length (fingerprint relay) \<noteq> 40 then False
      else if uptime relay > 1000 then False
      else if nickname relay = [] \<or> trim (nickname relay) = [] then False
      else True)"





text \<open>A transformed record whose country code has three letters.\<close>

definition relayLongCountry :: "rat RelayData" where
  "relayLongCountry = \<lparr>fingerprint = replicate 40 CHR ''A'', nickname = ''Relay1'', flags = [],
     uptime = 950, bandwidth = 0, consensusWeight = 0, country = ''USA'', asNumber = ''AS0'',
     lastSeen = 1700000000, running = True\<rparr>"

text \<open>How a transformed record reaches the contract: the ABI encoder writes a number that
  is a non-negative integer below \<open>2 ^ 256\<close> as that \<open>uint256\<close> (it refuses any other
  number, so only such numbers are encoded).\<close>

definition encodeNumber :: "rat \<Rightarrow> uint256" where
  "encodeNumber x = word_of_int \<lfloor>x\<rfloor>"

definition encodeRelay :: "rat RelayData \<Rightarrow> uint256 RelayData" where
  "encodeRelay r = \<lparr>fingerprint = fingerprint r, nickname = nickname r, flags = flags r,
     uptime = encodeNumber (uptime r), bandwidth = encodeNumber (bandwidth r),
     consensusWeight = encodeNumber (consensusWeight r), country = country r,
     asNumber = asNumber r, lastSeen = encodeNumber (lastSeen r), running = running r\<rparr>"

section \<open>The synchronization pipeline (\<open>ContractUpdater.updateContract\<close>)\<close>









section \<open>The reader's progressive fetch (web/app/page.tsx)\<close>







section \<open>Properties of the store\<close>

subsection \<open>Auxiliary facts\<close>

lemma RelayData_eta:
  "\<lparr>fingerprint = fingerprint r, nickname = nickname r, flags = flags r, uptime = uptime r,
     bandwidth = bandwidth r, consensusWeight = consensusWeight r, country = country r,
     asNumber = asNumber r, lastSeen = lastSeen r, running = running r\<rparr> = (r :: 'n RelayData)"
  by (cases r) simp

lemma upsert_valid:
  assumes "onlyAuthorized sender s" "validRecord now r"
  shows "upsert sender now r s =
     Inr (s\<lparr>fingerprintList :=
               (if length (fingerprint (relaysByFingerprint s (fingerprint r))) = 0
                then fingerprintList s @ [fingerprint r] else fingerprintList s),
            relaysByFingerprint := (relaysByFingerprint s)(fingerprint r := r)\<rparr>)"
  using assms
  by (simp add: upsert_def updateRelay_def validRecord_def FINGERPRINT_LENGTH_def
      MAX_UPTIME_def COUNTRY_CODE_LENGTH_def RelayData_eta)

lemmas store_consts = FINGERPRINT_LENGTH_def MAX_UPTIME_def COUNTRY_CODE_LENGTH_def

lemma batchLoop_invalid:
  "\<exists>r\<in>set relays. \<not> validRecord now r \<Longrightarrow> \<exists>e. batchLoop now relays s = Inl e \<and> validationError e"
proof (induction relays arbitrary: s)
  case Nil
  then show ?case by simp
next
  case (Cons r rs)
  show ?case
  proof (cases "validRecord now r")
    case True
    with Cons.prems have "\<exists>r\<in>set rs. \<not> validRecord now r" by simp
    from Cons.IH[OF this] True show ?thesis
      by (simp add: validRecord_def store_consts)
  next
    case False
    then show ?thesis
      by (auto simp add: validRecord_def store_consts validationError_def)
  qed
qed

lemma upsert_invalid:
  assumes "onlyAuthorized sender s" "\<not> validRecord now r"
  shows "\<exists>e. upsert sender now r s = Inl e \<and> validationError e"
  using assms
  by (auto simp add: upsert_def updateRelay_def validRecord_def store_consts validationError_def)

lemma validRecord_fp: "validRecord now r \<Longrightarrow> fingerprint r \<noteq> []"
  by (auto simp add: validRecord_def)

lemma upsert_effect:
  assumes "onlyAuthorized sender s" "validRecord now r"
  shows "\<exists>s'. upsert sender now r s = Inr s' \<and> onlyAuthorized sender s' \<and>
           relaysByFingerprint s' = (relaysByFingerprint s)(fingerprint r := r) \<and>
           fingerprintList s' = (if relayExists s (fingerprint r) then fingerprintList s
                                 else fingerprintList s @ [fingerprint r])"
  using assms(1) by (simp add: upsert_valid[OF assms] onlyAuthorized_def relayExists_def)

lemma upsert_stored:
  assumes "onlyAuthorized sender s" "validRecord now r" "relaysByFingerprint s (fingerprint r) = r"
  shows "upsert sender now r s = Inr s"
proof -
  have "(relaysByFingerprint s)(fingerprint r := r) = relaysByFingerprint s"
    by (metis assms(3) fun_upd_triv)
  moreover have "fingerprint (relaysByFingerprint s (fingerprint r)) \<noteq> []"
    using validRecord_fp[OF assms(2)] assms(3) by simp
  ultimately show ?thesis
    by (simp add: upsert_valid[OF assms(1,2)])
qed

lemma upsert_Inr:
  assumes "upsert sender now r s = Inr s'"
  shows "onlyAuthorized sender s \<and> validRecord now r"
  using assms
  by (simp add: upsert_def updateRelay_def validRecord_def store_consts split: if_splits)

text \<open>Facts about the test data.\<close>

lemma owner_authorized: "onlyAuthorized testOwner (constructor testOwner)"
  by (simp add: onlyAuthorized_def constructor_def)

lemma sampleRelay_valid: "validRecord testTime sampleRelay"
  by (simp add: validRecord_def sampleRelay_def testTime_def)



lemma relayBadUptime_invalid: "\<not> validRecord testTime relayBadUptime"
  by (simp add: validRecord_def relayBadUptime_def sampleRelay_def testTime_def)


lemma storeAB_eq:
  "storeAB = \<lparr>owner = testOwner, authorizedUpdaters = (\<lambda>_. False),
     relaysByFingerprint = ((\<lambda>_. zeroRelayData)(fingerprint relayA := relayA))
        (fingerprint relayB := relayB),
     fingerprintList = [fingerprint relayA, fingerprint relayB]\<rparr>"
  by (simp add: storeAB_def step_def transact_def batchUpdateRelays_def onlyAuthorized_def
      constructor_def testOwner_def testTime_def relayA_def relayB_def sampleRelay_def
      store_consts zeroRelayData_def)

subsection \<open>Rejected writes change nothing\<close>

text \<open>
  C1. For a caller that is the owner or an authorized updater, a batch that holds at least
  one record violating a record invariant (fingerprint length other than 40, uptime above
  1000, country length other than 2, empty nickname, or \<open>lastSeen\<close> after the block
  timestamp) makes \<open>batchUpdateRelays\<close> fail with a validation error, and the
  transaction leaves the whole store as it was: no record of the batch is written, the
  count and every stored record are unchanged. The same holds for \<open>updateRelay\<close> called
  with an invalid record.
\<close>

theorem invalid_write_rejected:
  assumes "onlyAuthorized sender s"
  shows "((\<exists>r\<in>set relays. \<not> validRecord now r) \<longrightarrow>
            (\<exists>e. batchUpdateRelays sender now relays s = Inl e \<and> validationError e) \<and>
            transact (batchUpdateRelays sender now relays) s
              = (s, case batchUpdateRelays sender now relays s of Inl e \<Rightarrow> Some e | Inr _ \<Rightarrow> None)) \<and>
         (\<not> validRecord now r0 \<longrightarrow>
            (\<exists>e. upsert sender now r0 s = Inl e \<and> validationError e) \<and>
            fst (transact (upsert sender now r0) s) = s)"
proof (intro conjI impI)
  assume inv: "\<exists>r\<in>set relays. \<not> validRecord now r"
  from batchLoop_invalid[OF inv] assms
  show b: "\<exists>e. batchUpdateRelays sender now relays s = Inl e \<and> validationError e"
    by (simp add: batchUpdateRelays_def)
  then show "transact (batchUpdateRelays sender now relays) s
              = (s, case batchUpdateRelays sender now relays s of Inl e \<Rightarrow> Some e | Inr _ \<Rightarrow> None)"
    by (auto simp add: transact_def)
next
  assume inv: "\<not> validRecord now r0"
  from upsert_invalid[OF assms inv]
  show u: "\<exists>e. upsert sender now r0 s = Inl e \<and> validationError e" .
  then show "fst (transact (upsert sender now r0) s) = s"
    by (auto simp add: transact_def)
qed

theorem invalid_write_rejected_witness:
  "onlyAuthorized testOwner (constructor testOwner) \<and>
   \<not> validRecord testTime relayBadUptime \<and>
   (\<exists>e. batchUpdateRelays testOwner testTime [relayA, relayBadUptime] (constructor testOwner)
          = Inl e \<and> validationError e) \<and>
   fst (transact (batchUpdateRelays testOwner testTime [relayA, relayBadUptime])
          (constructor testOwner)) = constructor testOwner \<and>
   fst (transact (upsert testOwner testTime relayBadUptime) (constructor testOwner))
     = constructor testOwner"
proof -
  have bad: "\<exists>r\<in>set [relayA, relayBadUptime]. \<not> validRecord testTime r"
    using relayBadUptime_invalid by simp
  from invalid_write_rejected[OF owner_authorized, of "[relayA, relayBadUptime]" testTime
      relayBadUptime] bad relayBadUptime_invalid owner_authorized
  show ?thesis by simp
qed

subsection \<open>Round trip\<close>

text \<open>
  C2. For a caller that is the owner or an authorized updater and a record \<open>r\<close> that
  satisfies every record invariant, \<open>updateRelay\<close> called with the fields of \<open>r\<close>
  succeeds, and \<open>getRelay\<close> of \<open>r\<close>'s fingerprint then succeeds and returns a record
  equal to \<open>r\<close> in all ten fields.
\<close>

theorem upsert_get_roundtrip:
  assumes "onlyAuthorized sender s" "validRecord now r"
  shows "\<exists>s'. upsert sender now r s = Inr s' \<and> getRelay s' (fingerprint r) = Inr r"
  using validRecord_fp[OF assms(2)] by (simp add: upsert_valid[OF assms] getRelay_def)

theorem upsert_get_roundtrip_witness:
  "onlyAuthorized testOwner (constructor testOwner) \<and> validRecord testTime sampleRelay \<and>
   (\<exists>s'. upsert testOwner testTime sampleRelay (constructor testOwner) = Inr s' \<and>
         getRelay s' (fingerprint sampleRelay) = Inr sampleRelay)"
  using upsert_get_roundtrip[OF owner_authorized sampleRelay_valid]
    owner_authorized sampleRelay_valid
  by simp

subsection \<open>Idempotence\<close>

text \<open>
  C5. Writing the same valid record twice in succession, by an authorized caller, gives
  after the second write exactly the state reached after the first: the count does not
  grow and the stored record is the same. A second write of another valid record with
  the same fingerprint replaces the stored record as a whole and leaves the count
  unchanged.
\<close>

theorem upsert_idempotent:
  assumes "onlyAuthorized sender s" "validRecord now r" "now \<le> now'"
  shows "\<exists>s1. upsert sender now r s = Inr s1 \<and> upsert sender now' r s1 = Inr s1 \<and>
           (\<forall>r'. validRecord now' r' \<and> fingerprint r' = fingerprint r \<longrightarrow>
              (\<exists>s2. upsert sender now' r' s1 = Inr s2 \<and> getRelay s2 (fingerprint r) = Inr r' \<and>
                    getRelayCount s2 = getRelayCount s1))"
proof -
  from upsert_effect[OF assms(1,2)] obtain s1 where
    1: "upsert sender now r s = Inr s1" and a1: "onlyAuthorized sender s1" and
    m1: "relaysByFingerprint s1 = (relaysByFingerprint s)(fingerprint r := r)"
    by blast
  have v': "validRecord now' r" using assms(2,3) by (auto simp add: validRecord_def)
  have ex1: "relayExists s1 (fingerprint r)"
    using validRecord_fp[OF assms(2)] by (simp add: relayExists_def m1)
  have 2: "upsert sender now' r s1 = Inr s1"
    by (rule upsert_stored[OF a1 v']) (simp add: m1)
  have 3: "\<exists>s2. upsert sender now' r' s1 = Inr s2 \<and> getRelay s2 (fingerprint r) = Inr r' \<and>
                    getRelayCount s2 = getRelayCount s1"
    if h: "validRecord now' r' \<and> fingerprint r' = fingerprint r" for r'
  proof -
    from h have vr: "validRecord now' r'" and fr: "fingerprint r' = fingerprint r" by simp_all
    from upsert_effect[OF a1 vr] obtain s2 where
      u: "upsert sender now' r' s1 = Inr s2" and
      m2: "relaysByFingerprint s2 = (relaysByFingerprint s1)(fingerprint r' := r')" and
      l2: "fingerprintList s2 = (if relayExists s1 (fingerprint r') then fingerprintList s1
                                 else fingerprintList s1 @ [fingerprint r'])"
      by blast
    have "getRelay s2 (fingerprint r) = Inr r'"
      using validRecord_fp[OF vr] fr by (simp add: getRelay_def m2)
    moreover have "getRelayCount s2 = getRelayCount s1"
      using ex1 fr by (simp add: getRelayCount_def l2)
    ultimately show ?thesis using u by blast
  qed
  from 1 2 3 show ?thesis by blast
qed

theorem upsert_idempotent_witness:
  "onlyAuthorized testOwner (constructor testOwner) \<and> validRecord testTime sampleRelay \<and>
   testTime \<le> testLater \<and>
   (\<exists>s1. upsert testOwner testTime sampleRelay (constructor testOwner) = Inr s1 \<and>
         upsert testOwner testLater sampleRelay s1 = Inr s1)"
proof -
  have le: "testTime \<le> testLater" by (simp add: testTime_def testLater_def)
  from upsert_idempotent[OF owner_authorized sampleRelay_valid le]
  have "\<exists>s1. upsert testOwner testTime sampleRelay (constructor testOwner) = Inr s1 \<and>
         upsert testOwner testLater sampleRelay s1 = Inr s1"
    by blast
  with owner_authorized sampleRelay_valid le show ?thesis by simp
qed

subsection \<open>The index is append-only and duplicate-free\<close>

lemma indexInv_constructor: "indexInv (constructor sender)"
  by (simp add: indexInv_def constructor_def relayExists_def zeroRelayData_def)

lemma write_indexInv:
  assumes "indexInv s" "fingerprint r \<noteq> []"
  shows "indexInv (s\<lparr>fingerprintList :=
               (if length (fingerprint (relaysByFingerprint s (fingerprint r))) = 0
                then fingerprintList s @ [fingerprint r] else fingerprintList s),
            relaysByFingerprint := (relaysByFingerprint s)(fingerprint r := r)\<rparr>)"
  using assms by (auto simp add: indexInv_def relayExists_def)

lemma write_grows:
  assumes "fingerprint r \<noteq> []"
  shows "(relayExists s fp \<longrightarrow> relayExists (s\<lparr>fingerprintList :=
               (if length (fingerprint (relaysByFingerprint s (fingerprint r))) = 0
                then fingerprintList s @ [fingerprint r] else fingerprintList s),
            relaysByFingerprint := (relaysByFingerprint s)(fingerprint r := r)\<rparr>) fp) \<and>
     (\<exists>ys. fingerprintList (s\<lparr>fingerprintList :=
               (if length (fingerprint (relaysByFingerprint s (fingerprint r))) = 0
                then fingerprintList s @ [fingerprint r] else fingerprintList s),
            relaysByFingerprint := (relaysByFingerprint s)(fingerprint r := r)\<rparr>) = fingerprintList s @ ys)"
  using assms by (simp add: relayExists_def)

lemma grows_refl: "grows s s"
  by (simp add: grows_def)

lemma grows_trans: "grows s t \<Longrightarrow> grows t u \<Longrightarrow> grows s u"
  by (auto simp add: grows_def)

lemma batchLoop_keeps:
  "batchLoop now relays s = Inr s' \<Longrightarrow> indexInv s \<Longrightarrow> indexInv s'"
proof (induction relays arbitrary: s)
  case Nil
  then show ?case by simp
next
  case (Cons r rs)
  from Cons.prems(1) have ne: "fingerprint r \<noteq> []"
    by (auto simp add: FINGERPRINT_LENGTH_def split: if_splits)
  from Cons.prems(1) have
    "batchLoop now rs (s\<lparr>fingerprintList :=
               (if length (fingerprint (relaysByFingerprint s (fingerprint r))) = 0
                then fingerprintList s @ [fingerprint r] else fingerprintList s),
            relaysByFingerprint := (relaysByFingerprint s)(fingerprint r := r)\<rparr>) = Inr s'"
    by (simp split: if_splits)
  from Cons.IH[OF this write_indexInv[OF Cons.prems(2) ne]] show ?case .
qed

lemma batchLoop_grows:
  "batchLoop now relays s = Inr s' \<Longrightarrow> grows s s'"
proof (induction relays arbitrary: s)
  case Nil
  then show ?case by (simp add: grows_refl)
next
  case (Cons r rs)
  let ?t = "s\<lparr>fingerprintList :=
               (if length (fingerprint (relaysByFingerprint s (fingerprint r))) = 0
                then fingerprintList s @ [fingerprint r] else fingerprintList s),
            relaysByFingerprint := (relaysByFingerprint s)(fingerprint r := r)\<rparr>"
  from Cons.prems(1) have ne: "fingerprint r \<noteq> []"
    by (auto simp add: FINGERPRINT_LENGTH_def split: if_splits)
  from Cons.prems(1) have "batchLoop now rs ?t = Inr s'"
    by (simp split: if_splits)
  from Cons.IH[OF this] have "grows ?t s'" .
  moreover have "grows s ?t"
    unfolding grows_def using write_grows[OF ne, of s] by blast
  ultimately show ?case by (rule grows_trans[rotated])
qed

lemma exec_keeps:
  assumes "exec sender now c s = Inr s'" "indexInv s"
  shows "indexInv s'"
proof (cases c)
  case (TransferOwnership a)
  with assms show ?thesis
    by (auto simp add: transferOwnership_def indexInv_def relayExists_def split: if_splits)
next
  case (AddAuthorizedUpdater a)
  with assms show ?thesis
    by (auto simp add: addAuthorizedUpdater_def indexInv_def relayExists_def split: if_splits)
next
  case (RemoveAuthorizedUpdater a)
  with assms show ?thesis
    by (auto simp add: removeAuthorizedUpdater_def indexInv_def relayExists_def split: if_splits)
next
  case (UpdateRelay r)
  with assms(1) have u: "upsert sender now r s = Inr s'" by simp
  from upsert_Inr[OF u] have a: "onlyAuthorized sender s" and v: "validRecord now r" by simp_all
  from u upsert_valid[OF a v] write_indexInv[OF assms(2) validRecord_fp[OF v]]
  show ?thesis by simp
next
  case (BatchUpdateRelays rs)
  with assms(1) have "batchLoop now rs s = Inr s'"
    by (simp add: batchUpdateRelays_def split: if_splits)
  from batchLoop_keeps[OF this assms(2)] show ?thesis .
qed

lemma exec_grows:
  assumes "exec sender now c s = Inr s'"
  shows "grows s s'"
proof (cases c)
  case (TransferOwnership a)
  with assms show ?thesis
    by (auto simp add: transferOwnership_def grows_def relayExists_def split: if_splits)
next
  case (AddAuthorizedUpdater a)
  with assms show ?thesis
    by (auto simp add: addAuthorizedUpdater_def grows_def relayExists_def split: if_splits)
next
  case (RemoveAuthorizedUpdater a)
  with assms show ?thesis
    by (auto simp add: removeAuthorizedUpdater_def grows_def relayExists_def split: if_splits)
next
  case (UpdateRelay r)
  with assms(1) have u: "upsert sender now r s = Inr s'" by simp
  from upsert_Inr[OF u] have a: "onlyAuthorized sender s" and v: "validRecord now r" by simp_all
  from u upsert_valid[OF a v] write_grows[OF validRecord_fp[OF v], of s]
  show ?thesis unfolding grows_def by auto
next
  case (BatchUpdateRelays rs)
  with assms(1) have "batchLoop now rs s = Inr s'"
    by (simp add: batchUpdateRelays_def split: if_splits)
  from batchLoop_grows[OF this] show ?thesis .
qed

lemma step_keeps: "indexInv s \<Longrightarrow> indexInv (step sender now c s)"
  by (cases "exec sender now c s") (simp_all add: step_def transact_def exec_keeps)

lemma step_grows: "grows s (step sender now c s)"
  by (cases "exec sender now c s") (simp_all add: step_def transact_def exec_grows grows_refl)

lemma reachable_indexInv: "reachable s \<Longrightarrow> indexInv s"
  by (induction rule: reachable.induct) (simp_all add: indexInv_constructor step_keeps)

text \<open>
  C4. In every state reachable from the deployed, empty store by any sequence of
  transactions, the fingerprint index has no duplicates and lists exactly the
  fingerprints that have a stored record, so the count equals the number of stored
  records. No transaction removes a record or an index entry: a fingerprint that exists
  keeps existing, the index only grows at its end, and the count never decreases.
\<close>

theorem index_append_only:
  assumes "reachable s"
  shows "distinct (fingerprintList s) \<and>
         set (fingerprintList s) = {fp. relayExists s fp} \<and>
         getRelayCount s = card {fp. relayExists s fp} \<and>
         (\<forall>sender now c.
            (\<forall>fp. relayExists s fp \<longrightarrow> relayExists (step sender now c s) fp) \<and>
            (\<exists>ys. fingerprintList (step sender now c s) = fingerprintList s @ ys) \<and>
            getRelayCount s \<le> getRelayCount (step sender now c s))"
proof -
  from reachable_indexInv[OF assms] have d: "distinct (fingerprintList s)"
    and e: "set (fingerprintList s) = {fp. relayExists s fp}"
    by (simp_all add: indexInv_def)
  have c: "getRelayCount s = card {fp. relayExists s fp}"
    using distinct_card[OF d] e by (simp add: getRelayCount_def)
  have g: "(\<forall>fp. relayExists s fp \<longrightarrow> relayExists (step sender now c s) fp) \<and>
            (\<exists>ys. fingerprintList (step sender now c s) = fingerprintList s @ ys) \<and>
            getRelayCount s \<le> getRelayCount (step sender now c s)" for sender now c
    using step_grows[of s sender now c] by (auto simp add: grows_def getRelayCount_def)
  from d e c g show ?thesis by blast
qed

theorem index_append_only_witness:
  "reachable storeAB \<and> distinct (fingerprintList storeAB) \<and>
   getRelayCount storeAB = card {fp. relayExists storeAB fp} \<and>
   relayExists storeAB (fingerprint relayA) \<and>
   relayExists (step testOwner testLater (UpdateRelay sampleRelay) storeAB) (fingerprint relayA) \<and>
   getRelayCount storeAB
     \<le> getRelayCount (step testOwner testLater (UpdateRelay sampleRelay) storeAB)"
proof -
  have r: "reachable storeAB"
    unfolding storeAB_def by (intro reachable.intros)
  have e: "relayExists storeAB (fingerprint relayA)"
    by (simp add: storeAB_eq relayExists_def relayA_def relayB_def)
  note t = index_append_only[OF r]
  from t have d: "distinct (fingerprintList storeAB)" by blast
  from t have c: "getRelayCount storeAB = card {fp. relayExists storeAB fp}" by blast
  from t e have
    e': "relayExists (step testOwner testLater (UpdateRelay sampleRelay) storeAB) (fingerprint relayA)"
    by blast
  from t have
    g: "getRelayCount storeAB
          \<le> getRelayCount (step testOwner testLater (UpdateRelay sampleRelay) storeAB)"
    by blast
  from r d c e e' g show ?thesis by blast
qed

subsection \<open>Authorization\<close>

text \<open>
  C3 (as amended). A caller that is neither the owner nor an authorized updater fails
  \<open>updateRelay\<close> and \<open>batchUpdateRelays\<close> with the authorization error and no state
  change. After the owner's \<open>addAuthorizedUpdater(X)\<close> has succeeded, \<open>X\<close> writes valid
  records successfully. After the owner's \<open>removeAuthorizedUpdater(X)\<close> has succeeded,
  the writes of \<open>X\<close> fail, provided \<open>X\<close> is not the owner itself. Every caller other than
  the owner fails \<open>transferOwnership\<close>, \<open>addAuthorizedUpdater\<close> and
  \<open>removeAuthorizedUpdater\<close> with no state change.
\<close>

theorem authorization_gates:
  "(c \<noteq> owner s \<and> \<not> authorizedUpdaters s c \<longrightarrow>
      upsert c now r s = Inl OnlyAuthorized \<and>
      batchUpdateRelays c now rs s = Inl OnlyAuthorized \<and>
      step c now (UpdateRelay r) s = s \<and> step c now (BatchUpdateRelays rs) s = s) \<and>
   (addAuthorizedUpdater (owner s) x s = Inr s1 \<and> validRecord now r \<longrightarrow>
      (\<exists>s2. upsert x now r s1 = Inr s2)) \<and>
   (removeAuthorizedUpdater (owner s) x s = Inr s1 \<and> x \<noteq> owner s \<longrightarrow>
      upsert x now r s1 = Inl OnlyAuthorized \<and>
      batchUpdateRelays x now rs s1 = Inl OnlyAuthorized) \<and>
   (c \<noteq> owner s \<longrightarrow>
      transferOwnership c a s = Inl OnlyOwner \<and>
      addAuthorizedUpdater c a s = Inl OnlyOwner \<and>
      removeAuthorizedUpdater c a s = Inl OnlyOwner \<and>
      step c now (TransferOwnership a) s = s \<and>
      step c now (AddAuthorizedUpdater a) s = s \<and>
      step c now (RemoveAuthorizedUpdater a) s = s)"
proof (intro conjI impI)
  assume h: "c \<noteq> owner s \<and> \<not> authorizedUpdaters s c"
  then show u: "upsert c now r s = Inl OnlyAuthorized"
    by (simp add: upsert_def updateRelay_def onlyAuthorized_def)
  from h show b: "batchUpdateRelays c now rs s = Inl OnlyAuthorized"
    by (simp add: batchUpdateRelays_def onlyAuthorized_def)
  from u show "step c now (UpdateRelay r) s = s"
    by (simp add: step_def transact_def)
  from b show "step c now (BatchUpdateRelays rs) s = s"
    by (simp add: step_def transact_def)
next
  assume h: "addAuthorizedUpdater (owner s) x s = Inr s1 \<and> validRecord now r"
  then have "onlyAuthorized x s1"
    by (auto simp add: addAuthorizedUpdater_def onlyAuthorized_def split: if_splits)
  from upsert_valid[OF this] h show "\<exists>s2. upsert x now r s1 = Inr s2"
    by simp
next
  assume h: "removeAuthorizedUpdater (owner s) x s = Inr s1 \<and> x \<noteq> owner s"
  then have n: "\<not> onlyAuthorized x s1"
    by (auto simp add: removeAuthorizedUpdater_def onlyAuthorized_def split: if_splits)
  then show "upsert x now r s1 = Inl OnlyAuthorized"
    by (simp add: upsert_def updateRelay_def)
  from n show "batchUpdateRelays x now rs s1 = Inl OnlyAuthorized"
    by (simp add: batchUpdateRelays_def)
next
  assume h: "c \<noteq> owner s"
  then show t: "transferOwnership c a s = Inl OnlyOwner"
    by (simp add: transferOwnership_def onlyOwner_def)
  from h show ad: "addAuthorizedUpdater c a s = Inl OnlyOwner"
    by (simp add: addAuthorizedUpdater_def onlyOwner_def)
  from h show re: "removeAuthorizedUpdater c a s = Inl OnlyOwner"
    by (simp add: removeAuthorizedUpdater_def onlyOwner_def)
  from t show "step c now (TransferOwnership a) s = s"
    by (simp add: step_def transact_def)
  from ad show "step c now (AddAuthorizedUpdater a) s = s"
    by (simp add: step_def transact_def)
  from re show "step c now (RemoveAuthorizedUpdater a) s = s"
    by (simp add: step_def transact_def)
qed

theorem authorization_gates_witness:
  "testUpdater \<noteq> owner (constructor testOwner) \<and>
   \<not> authorizedUpdaters (constructor testOwner) testUpdater \<and>
   upsert testUpdater testTime sampleRelay (constructor testOwner) = Inl OnlyAuthorized \<and>
   batchUpdateRelays testUpdater testTime [relayA] (constructor testOwner) = Inl OnlyAuthorized \<and>
   transferOwnership testUpdater testUpdater (constructor testOwner) = Inl OnlyOwner \<and>
   (\<exists>s1 s2. addAuthorizedUpdater (owner (constructor testOwner)) testUpdater
               (constructor testOwner) = Inr s1 \<and>
            upsert testUpdater testTime sampleRelay s1 = Inr s2) \<and>
   (\<exists>s1. removeAuthorizedUpdater (owner storeWithUpdater) testUpdater storeWithUpdater = Inr s1 \<and>
         upsert testUpdater testTime sampleRelay s1 = Inl OnlyAuthorized)"
proof -
  let ?s0 = "constructor testOwner"
  let ?s1 = "?s0\<lparr>authorizedUpdaters := (authorizedUpdaters ?s0)(testUpdater := True)\<rparr>"
  let ?s2 = "storeWithUpdater\<lparr>authorizedUpdaters :=
               (authorizedUpdaters storeWithUpdater)(testUpdater := False)\<rparr>"
  have n: "testUpdater \<noteq> owner ?s0" "\<not> authorizedUpdaters ?s0 testUpdater"
    by (simp_all add: constructor_def testOwner_def testUpdater_def)
  have add: "addAuthorizedUpdater (owner ?s0) testUpdater ?s0 = Inr ?s1"
    by (simp add: addAuthorizedUpdater_def onlyOwner_def constructor_def testUpdater_def)
  have sw: "storeWithUpdater = ?s1"
    by (simp add: storeWithUpdater_def step_def transact_def addAuthorizedUpdater_def
        onlyOwner_def constructor_def testUpdater_def)
  have rem: "removeAuthorizedUpdater (owner storeWithUpdater) testUpdater storeWithUpdater = Inr ?s2"
    by (simp add: sw removeAuthorizedUpdater_def onlyOwner_def constructor_def)
  have n': "testUpdater \<noteq> owner storeWithUpdater"
    by (simp add: sw constructor_def testOwner_def testUpdater_def)
  note t0 = authorization_gates[of testUpdater ?s0 testTime sampleRelay "[relayA]"
      testUpdater ?s1 testUpdater]
  note t1 = authorization_gates[of testUpdater storeWithUpdater testTime sampleRelay "[relayA]"
      testUpdater ?s2 testUpdater]
  from t0 n have a: "upsert testUpdater testTime sampleRelay ?s0 = Inl OnlyAuthorized"
    "batchUpdateRelays testUpdater testTime [relayA] ?s0 = Inl OnlyAuthorized"
    "transferOwnership testUpdater testUpdater ?s0 = Inl OnlyOwner"
    by blast+
  from t0 add sampleRelay_valid
  have b: "\<exists>s2. upsert testUpdater testTime sampleRelay ?s1 = Inr s2" by blast
  from t1 rem n'
  have c: "upsert testUpdater testTime sampleRelay ?s2 = Inl OnlyAuthorized" by blast
  from n a add b rem c show ?thesis by blast
qed

text \<open>
  C3 as stated fails where \<open>X\<close> is the owner: the owner adds itself as an updater,
  removes itself again, and its next write of a valid record still succeeds. All three
  transactions commit.
\<close>

theorem removed_owner_still_writes:
  "snd (execAll [(testOwner, testTime, AddAuthorizedUpdater testOwner),
                 (testOwner, testTime, RemoveAuthorizedUpdater testOwner),
                 (testOwner, testTime, UpdateRelay sampleRelay)] (constructor testOwner))
     = [None, None, None]"
  by (simp add: transact_def addAuthorizedUpdater_def removeAuthorizedUpdater_def upsert_def
      updateRelay_def onlyOwner_def onlyAuthorized_def constructor_def testOwner_def
      testTime_def sampleRelay_def store_consts zeroRelayData_def)

subsection \<open>Pagination\<close>

text \<open>What \<open>getRelaysPaginated\<close> does when the sum \<open>offset + limit\<close> fits in a
  \<open>uint256\<close>: it fails with the out-of-bounds error exactly for an offset at or beyond
  the count, and otherwise returns the records of the index from \<open>offset\<close> on, at most
  \<open>limit\<close> of them, in index order.\<close>

lemma getRelaysPaginated_bounds:
  "getRelaysPaginated s offset limit = Inl OffsetOutOfBounds \<longleftrightarrow> getRelayCount s \<le> unat offset"
  by (auto simp add: getRelaysPaginated_def getRelayCount_def Let_def)

lemma page_loop:
  assumes "off + n \<le> length xs"
  shows "map (\<lambda>i. f (xs ! (off + i))) [0..<n] = map f (take n (drop off xs))"
  using assms by (auto intro!: nth_equalityI)

lemma getRelaysPaginated_page:
  assumes "unat offset < getRelayCount s" "unat offset + unat limit < 2 ^ 256"
  shows "getRelaysPaginated s offset limit =
           Inr (map (relaysByFingerprint s) (take (unat limit) (drop (unat offset) (fingerprintList s))))"
proof -
  let ?xs = "fingerprintList s"
  let ?n = "min (unat offset + unat limit) (length ?xs) - unat offset"
  have le: "unat offset + ?n \<le> length ?xs" using assms(1) by (simp add: getRelayCount_def)
  have tk: "take ?n (drop (unat offset) ?xs) = take (unat limit) (drop (unat offset) ?xs)"
    by (cases "unat offset + unat limit \<le> length ?xs") (simp_all add: min_def)
  have "getRelaysPaginated s offset limit =
          Inr (map (\<lambda>i. relaysByFingerprint s (?xs ! (unat offset + i))) [0..<?n])"
    using assms by (auto simp add: getRelaysPaginated_def getRelayCount_def Let_def min_def)
  also have "\<dots> = Inr (map (relaysByFingerprint s) (take ?n (drop (unat offset) ?xs)))"
    using page_loop[OF le] by simp
  finally show ?thesis using tk by simp
qed

text \<open>
  C6 at a failing input. The store holds two records, with the fingerprints of forty
  letters \<open>A\<close> and of forty letters \<open>B\<close>; offset 1 is below the count 2. With the limit
  \<open>2 ^ 256 - 1\<close> the checked addition \<open>offset + limit\<close> overflows and the call
  reverts with the arithmetic panic, where the claim promises the one-record tail. With
  limit 5 the same offset returns that tail.
\<close>

theorem paginated_limit_overflow:
  "getRelayCount storeAB = 2 \<and> unat (1 :: uint256) < getRelayCount storeAB \<and>
   getRelaysPaginated storeAB 1 (- 1) = Inl PanicOverflow \<and>
   getRelaysPaginated storeAB 1 5 = Inr [relayB]"
  by (simp add: storeAB_def step_def transact_def batchUpdateRelays_def onlyAuthorized_def
      constructor_def testOwner_def testTime_def relayA_def relayB_def sampleRelay_def
      store_consts zeroRelayData_def getRelayCount_def getRelaysPaginated_def
      unsigned_minus_1_eq_mask mask_eq_exp_minus_1)

theorem paginated_limit_overflow_witness:
  "getRelaysPaginated storeAB 1 (- 1) = Inl PanicOverflow"
  using paginated_limit_overflow by simp

section \<open>Properties of the transformer\<close>







text \<open>
  C8 at a failing input. A transformed record with the three-letter country code
  \<open>USA\<close> passes \<open>validateRelayData\<close>, which tests the fingerprint length, the uptime
  bound and the nickname only; the store's validation rejects the same record with the
  country-code error.
\<close>

theorem filter_misses_country:
  "validateRelayData relayLongCountry \<and>
   \<not> validRecord testTime (encodeRelay relayLongCountry) \<and>
   upsert testOwner testTime (encodeRelay relayLongCountry) (constructor testOwner)
     = Inl InvalidCountryCode"
  by (simp add: validateRelayData_def relayLongCountry_def trim_def isWhiteSpace_def
      validRecord_def encodeRelay_def encodeNumber_def upsert_def updateRelay_def
      onlyAuthorized_def constructor_def testOwner_def testTime_def
      FINGERPRINT_LENGTH_def MAX_UPTIME_def COUNTRY_CODE_LENGTH_def)

theorem filter_misses_country_witness:
  "validateRelayData relayLongCountry \<and>
   \<not> validRecord testTime (encodeRelay relayLongCountry)"
  using filter_misses_country by simp

section \<open>Fingerprints are keys as given\<close>



section \<open>Properties of the pipeline and of the reader's fetch\<close>











end
